theory Spec2Isabelle
  imports Main "HOL-Library.Char_ord" "HOL-Library.List_Lexorder" "HOL-Library.Multiset"
begin

section \<open>Severity scoring engine (backend/scoring/severity\_engine.py)\<close>

text \<open>
  Python strings are modelled as \<^typ>\<open>string\<close>, one \<^typ>\<open>char\<close> standing for one
  code point, so the model covers the strings whose code points lie below 256.
  Python's unbounded integers are \<^typ>\<open>int\<close>.
\<close>

definition DATA_CLASS_WEIGHTS :: "(string \<times> int) list" where
  "DATA_CLASS_WEIGHTS =
    [(''Passwords'', 25),
     (''Password hints'', 20),
     (''Auth tokens'', 20),
     (''Credit cards'', 25),
     (''Bank account numbers'', 25),
     (''Social security numbers'', 25),
     (''Passport numbers'', 20),
     (''Government issued IDs'', 20),
     (''Private messages'', 15),
     (''Security questions and answers'', 18),
     (''Biometric data'', 22),
     (''Health insurance information'', 18),
     (''Medical records'', 20),
     (''Financial transactions'', 18),
     (''Purchases'', 10),
     (''Phone numbers'', 8),
     (''Physical addresses'', 8),
     (''Dates of birth'', 7),
     (''Genders'', 3),
     (''Geographic locations'', 5),
     (''Ethnicities'', 5),
     (''Email addresses'', 5),
     (''Usernames'', 4),
     (''Names'', 3),
     (''IP addresses'', 4),
     (''Device information'', 3),
     (''Browser user agent details'', 2),
     (''Avatars'', 1),
     (''Website activity'', 3)]"

definition SEVERITY_THRESHOLDS :: "(string \<times> int) list" where
  "SEVERITY_THRESHOLDS =
    [(''CRITICAL'', 25), (''HIGH'', 12), (''MEDIUM'', 6), (''LOW'', 0)]"

text \<open>\<open>SEVERITY_THRESHOLDS[k]\<close>, read only at the four literal keys.\<close>

definition threshold :: "string \<Rightarrow> int" where
  "threshold k = the (map_of SEVERITY_THRESHOLDS k)"

text \<open>\<open>DATA_CLASS_WEIGHTS.get(c, 2)\<close> and \<open>c in DATA_CLASS_WEIGHTS\<close>.\<close>

definition weight_of :: "string \<Rightarrow> int" where
  "weight_of c = (case map_of DATA_CLASS_WEIGHTS c of Some w \<Rightarrow> w | None \<Rightarrow> 2)"

definition recognized :: "string \<Rightarrow> bool" where
  "recognized c = (map_of DATA_CLASS_WEIGHTS c \<noteq> None)"

record SeverityResult =
  label :: string
  score :: int
  matched_classes :: "string list"
  top_risk :: string
  description :: string

definition critical_types :: "string set" where
  "critical_types =
    {''Passwords'', ''Credit cards'', ''Bank account numbers'',
     ''Social security numbers'', ''Auth tokens'', ''Biometric data''}"

fun is_critical_breach :: "string list \<Rightarrow> bool" where
  "is_critical_breach [] = False"
| "is_critical_breach (c # cs) = (if c \<in> critical_types then True else is_critical_breach cs)"

text \<open>
  The scoring loop of \<open>calculate_severity\<close>; its state is
  \<open>(raw_score, matched_classes, top_risk, highest_weight)\<close>.
\<close>

fun score_loop ::
  "string list \<Rightarrow> int \<times> string list \<times> string \<times> int \<Rightarrow> int \<times> string list \<times> string \<times> int"
where
  "score_loop [] st = st"
| "score_loop (c # cs) (raw_score, matched, top_r, highest) =
    (let weight = weight_of c;
         raw_score' = raw_score + weight;
         matched' = (if recognized c then matched @ [c] else matched)
     in if weight > highest
        then score_loop cs (raw_score', matched', c, weight)
        else score_loop cs (raw_score', matched', top_r, highest))"

text \<open>\<open>str(n)\<close> for a length.\<close>

fun str_of_nat :: "nat \<Rightarrow> string" where
  "str_of_nat n =
    (if n < 10 then [char_of (48 + n)]
     else str_of_nat (n div 10) @ [char_of (48 + n mod 10)])"

definition calculate_severity :: "string list \<Rightarrow> SeverityResult" where
  "calculate_severity data_classes =
    (if data_classes = [] then
       \<lparr>label = ''LOW'', score = 0, matched_classes = [], top_risk = ''None'',
        description = ''No data classes reported''\<rparr>
     else
       (case score_loop data_classes (0, [], ''None'', - 1) of
          (raw_score, matched, top_r, highest) \<Rightarrow>
          let score0 = min raw_score 100;
              critical = (is_critical_breach data_classes \<or> score0 \<ge> threshold ''CRITICAL'');
              lbl = (if critical then ''CRITICAL''
                     else if score0 \<ge> threshold ''HIGH'' then ''HIGH''
                     else if score0 \<ge> threshold ''MEDIUM'' then ''MEDIUM''
                     else ''LOW'');
              score1 = (if critical then max score0 (threshold ''CRITICAL'') else score0);
              descr =
                (if ''Passwords'' \<in> set data_classes
                 then ''Your login credentials were directly exposed.''
                 else if ''Credit cards'' \<in> set data_classes
                       \<or> ''Bank account numbers'' \<in> set data_classes
                 then ''Your financial data was exposed.''
                 else str_of_nat (length data_classes)
                      @ '' types of personal data were exposed including ''
                      @ hd data_classes @ ''.'')
          in \<lparr>label = lbl, score = score1, matched_classes = matched, top_risk = top_r,
              description = descr\<rparr>))"

section \<open>SMS channel (backend/alerts/sms\_alert.py)\<close>

datatype py_exn =
    AssertionError
  | ValueError
  | IndexError
  | AttributeError
  | IntegrityError
  | OperationalError
  | RuntimeError
  | UnmodelledFormatField

text \<open>
  \<open>template.format(arg)\<close> with one positional argument; \<open>n\<close> counts the
  automatically numbered fields already filled. Literal text is copied, \<open>{{\<close> and
  \<open>}}\<close> are the escaped braces, \<open>{}\<close> takes the next positional argument
  (IndexError when there is none left) and a single brace is a ValueError. A field
  with anything between its braces (a name, an index, a conversion, a format spec) is
  not interpreted: the model answers \<open>UnmodelledFormatField\<close> there.
\<close>

fun str_format :: "string \<Rightarrow> string \<Rightarrow> nat \<Rightarrow> py_exn + string" where
  "str_format [] arg n = Inr []"
| "str_format [c] arg n = (if c = CHR ''{'' \<or> c = CHR ''}'' then Inl ValueError else Inr [c])"
| "str_format (c # d # cs) arg n =
    (if c = CHR ''{'' then
       (if d = CHR ''{'' then map_sum id ((#) c) (str_format cs arg n)
        else if d = CHR ''}'' then
          (if n = 0 then map_sum id ((@) arg) (str_format cs arg (Suc n)) else Inl IndexError)
        else Inl UnmodelledFormatField)
     else if c = CHR ''}'' then
       (if d = CHR ''}'' then map_sum id ((#) c) (str_format cs arg n) else Inl ValueError)
     else map_sum id ((#) c) (str_format (d # cs) arg n))"

text \<open>The f-string of \<open>build_sms_message\<close>; its \<open>{{}}\<close> is the literal \<open>{}\<close>.\<close>

definition base_structure :: "string \<Rightarrow> string \<Rightarrow> string" where
  "base_structure severity email_preview =
    ''[BreachShield] '' @ severity @ '' ALERT: '' @ email_preview
    @ '' found in {} breach. Change your password NOW. Reply STOP to unsubscribe.''"

text \<open>The slice \<open>s[:k]\<close>: a negative \<open>k\<close> counts from the end.\<close>

definition slice_to :: "string \<Rightarrow> int \<Rightarrow> string" where
  "slice_to s k = (if 0 \<le> k then take (nat k) s else take (nat (int (length s) + k)) s)"

definition build_sms_message :: "string \<Rightarrow> string \<Rightarrow> string \<Rightarrow> py_exn + string" where
  "build_sms_message breach_name severity email_preview =
    (let base = base_structure severity email_preview;
         available_length = 160 - (int (length base) - 2);
         formatted =
           (if int (length breach_name) > available_length
            then str_format base (slice_to breach_name (available_length - 3) @ ''...'') 0
            else str_format base breach_name 0)
     in case formatted of
          Inl e \<Rightarrow> Inl e
        | Inr message \<Rightarrow> if length message \<le> 160 then Inr message else Inl AssertionError)"

text \<open>
  The result dictionaries of the senders: \<open>{"status": "sent", ...}\<close>,
  \<open>{"status": "skipped", "reason": r}\<close> and \<open>{"status": "failed", "error": e}\<close>.
\<close>

datatype alert_result = Sent string | Skipped string | Failed string

fun result_status :: "alert_result \<Rightarrow> string" where
  "result_status (Sent _) = ''sent''"
| "result_status (Skipped _) = ''skipped''"
| "result_status (Failed _) = ''failed''"

fun result_error :: "alert_result \<Rightarrow> string option" where
  "result_error (Failed e) = Some e"
| "result_error _ = None"

text \<open>\<open>str.isdigit\<close> on code points below 256: the ASCII digits and the superscripts 1, 2, 3.\<close>

definition isdigit :: "string \<Rightarrow> bool" where
  "isdigit s =
    (s \<noteq> [] \<and>
     list_all (\<lambda>c. let n = (of_char c :: nat)
                    in (48 \<le> n \<and> n \<le> 57) \<or> n = 178 \<or> n = 179 \<or> n = 185) s)"

section \<open>Collaborators\<close>

text \<open>
  The external services the tasks call, as the values they answer with:
  Fernet decryption (\<open>None\<close>: invalid token), the breach feed, the text generator
  (\<open>None\<close>: any exception of the call), SHA-256 as a hex digest, the queue broker
  (whether \<open>dispatch_alerts.delay(id)\<close> is accepted), the mail provider (an error text
  or the HTTP status code, for recipient, breach name and severity), the SMS provider
  (an error text or the message sid, for recipient and body), the clock, and the store
  as other sessions and faults make it answer the commit of a new cache row (refused
  when another session has committed the same key since the lookup, or on a store
  error).
\<close>

record raw_breach =
  Name :: "string option"
  DataClasses :: "string list option"

record collaborators =
  decrypt_email :: "string \<Rightarrow> string option"
  get_breaches_for_email :: "string \<Rightarrow> py_exn + raw_breach list"
  claude :: "string \<Rightarrow> string list \<Rightarrow> string option"
  sha256_hex :: "string \<Rightarrow> string"
  broker_accepts :: "nat \<Rightarrow> bool"
  sendgrid_send :: "string \<Rightarrow> string \<Rightarrow> string \<Rightarrow> string + nat"
  twilio_create :: "string \<Rightarrow> string \<Rightarrow> string + string"
  utcnow :: nat
  cache_store_accepts :: "string \<Rightarrow> bool"

text \<open>
  \<open>SMSAlertSender.send_breach_sms\<close>: the result, or the exception that leaves the
  method, with the provider calls it made (recipient and body).
\<close>

definition send_breach_sms ::
  "collaborators \<Rightarrow> string \<Rightarrow> string \<Rightarrow> string \<Rightarrow> string
    \<Rightarrow> (py_exn + alert_result) \<times> (string \<times> string) list"
where
  "send_breach_sms env to_phone breach_name severity email_preview =
    (if severity \<noteq> ''CRITICAL'' \<and> severity \<noteq> ''HIGH''
     then (Inr (Skipped ''severity_below_threshold''), [])
     else if \<not> (to_phone \<noteq> [] \<and> hd to_phone = CHR ''+'') \<or> \<not> isdigit (drop 1 to_phone)
     then (Inr (Failed ''Invalid phone number format''), [])
     else
       (case build_sms_message breach_name severity email_preview of
          Inl e \<Rightarrow> (Inl e, [])
        | Inr msg_body \<Rightarrow>
            (case twilio_create env to_phone msg_body of
               Inr sid \<Rightarrow> (Inr (Sent sid), [(to_phone, msg_body)])
             | Inl err \<Rightarrow> (Inr (Failed err), [(to_phone, msg_body)]))))"

text \<open>\<open>EmailAlertSender.send_breach_alert\<close>: every exception of the provider call is caught.\<close>

definition send_breach_alert ::
  "collaborators \<Rightarrow> string \<Rightarrow> string \<Rightarrow> string \<Rightarrow> alert_result"
where
  "send_breach_alert env to_email breach_name severity =
    (case sendgrid_send env to_email breach_name severity of
       Inl err \<Rightarrow> Failed err
     | Inr code \<Rightarrow>
         if code = 202 then Sent (str_of_nat code)
         else Failed (''Unexpected code '' @ str_of_nat code))"

section \<open>Remediation cache key (backend/remediation/llm\_advisor.py)\<close>

text \<open>\<open>sep.join(xs)\<close>.\<close>

fun join :: "string \<Rightarrow> string list \<Rightarrow> string" where
  "join sep [] = []"
| "join sep [x] = x"
| "join sep (x # y # ys) = x @ sep @ join sep (y # ys)"

text \<open>
  \<open>LLMAdvisor._build_cache_key\<close>; \<open>sorted\<close> orders strings by code point,
  lexicographically, which is the order of \<^typ>\<open>string\<close> here.
\<close>

definition build_cache_key :: "(string \<Rightarrow> string) \<Rightarrow> string \<Rightarrow> string list \<Rightarrow> string" where
  "build_cache_key sha256 breach_name data_classes =
    (let sorted_classes = sort data_classes;
         joined_classes = join '','' sorted_classes;
         raw_key = breach_name @ ''|'' @ joined_classes
     in sha256 raw_key)"

section \<open>Persistent store (backend/database/models.py, connection.py)\<close>

text \<open>
  The tables, with the columns the tasks read or write. Timestamps are readings of the
  clock. The \<open>users\<close> table declares no phone column; \<open>dispatch_alerts\<close> reads it
  with \<open>getattr(owner, "phone_number", None)\<close>, modelled by an optional field.
\<close>

record User =
  u_id :: nat
  u_email :: string
  phone_number :: "string option"

record MonitoredEmail =
  me_id :: nat
  email_encrypted :: string
  email_preview :: string
  user_id :: nat
  is_active :: bool
  last_scanned_at :: "nat option"
  scan_count :: int

record BreachEvent =
  be_id :: nat
  monitored_email_id :: nat
  breach_name :: string
  data_classes :: "string list"
  severity :: string
  severity_score :: int
  is_notified :: bool
  notified_at :: "nat option"
  remediation_text :: "string option"

record AlertLog =
  al_breach_event_id :: nat
  channel :: string
  recipient :: string
  status :: string
  error_message :: "string option"

record RemediationCache =
  cache_key :: string
  rc_breach_name :: string
  data_classes_json :: "string list"
  rc_remediation_text :: string
  hit_count :: int

record database =
  users :: "User list"
  monitored_emails :: "MonitoredEmail list"
  breach_events :: "BreachEvent list"
  alert_logs :: "AlertLog list"
  remediation_cache :: "RemediationCache list"

text \<open>
  A session is the committed store and the transaction's view of it (the committed rows
  with the session's own additions and changes). \<open>commit\<close> persists the view,
  \<open>rollback\<close> discards it; \<open>get_db\<close> opens a session on the store and closes it at
  the end of the task, which leaves the committed store.
\<close>

record session =
  committed :: database
  working :: database

definition open_session :: "database \<Rightarrow> session" where
  "open_session db = \<lparr>committed = db, working = db\<rparr>"

definition commit :: "session \<Rightarrow> session" where
  "commit s = s\<lparr>committed := working s\<rparr>"

definition rollback :: "session \<Rightarrow> session" where
  "rollback s = s\<lparr>working := committed s\<rparr>"

text \<open>An attribute assignment on the first row a query returned.\<close>

fun update_first :: "('a \<Rightarrow> bool) \<Rightarrow> ('a \<Rightarrow> 'a) \<Rightarrow> 'a list \<Rightarrow> 'a list" where
  "update_first P f [] = []"
| "update_first P f (x # xs) = (if P x then f x # xs else x # update_first P f xs)"

text \<open>The next value of an auto-incremented primary key.\<close>

definition fresh_id :: "BreachEvent list \<Rightarrow> nat" where
  "fresh_id evs = Suc (fold max (map be_id evs) 0)"

text \<open>
  \<open>db_session.add(new_breach); db_session.flush()\<close>: the row gets its id; the insert
  violates \<open>uix_email_breach\<close> when the pair (monitored email, breach name) is taken.
\<close>

definition flush_breach_event :: "BreachEvent \<Rightarrow> session \<Rightarrow> py_exn + (nat \<times> session)" where
  "flush_breach_event ev s =
    (let w = working s in
     if \<exists>e \<in> set (breach_events w).
          monitored_email_id e = monitored_email_id ev \<and> breach_name e = breach_name ev
     then Inl IntegrityError
     else let i = fresh_id (breach_events w)
          in Inr (i, s\<lparr>working := w\<lparr>breach_events := breach_events w @ [ev\<lparr>be_id := i\<rparr>]\<rparr>\<rparr>))"

text \<open>
  \<open>db_session.add(new_cache_entry); db_session.commit()\<close>: the insert of a cache row
  and its commit, which persists everything the session holds. \<open>cache_key\<close> is unique:
  the commit raises when the key is in the session's view, and when the store refuses
  the row (the key committed by another session in the meantime, or a store error).
\<close>

definition insert_cache_entry ::
  "collaborators \<Rightarrow> RemediationCache \<Rightarrow> session \<Rightarrow> py_exn + session"
where
  "insert_cache_entry env entry s =
    (let w = working s in
     if (\<exists>e \<in> set (remediation_cache w). cache_key e = cache_key entry)
        \<or> \<not> cache_store_accepts env (cache_key entry)
     then Inl IntegrityError
     else Inr (commit (s\<lparr>working := w\<lparr>remediation_cache := remediation_cache w @ [entry]\<rparr>\<rparr>)))"

section \<open>Remediation advice with its cache (LLMAdvisor.generate\_remediation)\<close>

definition fallback_text :: string where
  "fallback_text =
    ''Please change your password for this service immediately and enable two-factor authentication.''"

text \<open>
  The cache lookup, the hit with its commit, the call of the text generator on a miss,
  and the attempt to store the new advice: when that commit raises, the handler rolls
  the shared session back.
\<close>

definition generate_remediation ::
  "collaborators \<Rightarrow> string \<Rightarrow> string list \<Rightarrow> session \<Rightarrow> string \<times> session"
where
  "generate_remediation env bname classes s =
    (let key = build_cache_key (sha256_hex env) bname classes in
     case find (\<lambda>e. cache_key e = key) (remediation_cache (working s)) of
       Some existing \<Rightarrow>
         (rc_remediation_text existing,
          commit (s\<lparr>working := (working s)\<lparr>remediation_cache :=
            update_first (\<lambda>e. cache_key e = key) (\<lambda>e. e\<lparr>hit_count := hit_count e + 1\<rparr>)
              (remediation_cache (working s))\<rparr>\<rparr>))
     | None \<Rightarrow>
         (case claude env bname classes of
            None \<Rightarrow> (fallback_text, s)
          | Some text \<Rightarrow>
              (text,
               case insert_cache_entry env
                      \<lparr>cache_key = key, rc_breach_name = bname, data_classes_json = classes,
                       rc_remediation_text = text, hit_count = 1\<rparr> s of
                 Inr s' \<Rightarrow> s'
               | Inl e \<Rightarrow> rollback s)))"

section \<open>Breach ingestion worker (process\_single\_email)\<close>

record breach_data =
  bd_name :: string
  bd_data_classes :: "string list"

text \<open>\<open>HIBPClient.normalize_breach\<close>, on the two keys the worker's decisions read.\<close>

definition normalize_breach :: "raw_breach \<Rightarrow> breach_data" where
  "normalize_breach raw =
    \<lparr>bd_name = (case Name raw of None \<Rightarrow> [] | Some n \<Rightarrow> n),
     bd_data_classes = (case DataClasses raw of None \<Rightarrow> [] | Some cs \<Rightarrow> cs)\<rparr>"

text \<open>
  The loop over the feed's breaches. It answers the exception that ended it, if any,
  the session as it was then, the count of new breaches and the event ids handed to the
  queue.
\<close>

fun scan_loop ::
  "collaborators \<Rightarrow> nat \<Rightarrow> raw_breach list \<Rightarrow> session \<Rightarrow> nat \<Rightarrow> nat list
    \<Rightarrow> py_exn option \<times> session \<times> nat \<times> nat list"
where
  "scan_loop env mid [] s cnt q = (None, s, cnt, q)"
| "scan_loop env mid (raw # raws) s cnt q =
    (let bd = normalize_breach raw in
     if find (\<lambda>e. monitored_email_id e = mid \<and> breach_name e = bd_name bd)
          (breach_events (working s)) \<noteq> None
     then scan_loop env mid raws s cnt q
     else
       let severity_result = calculate_severity (bd_data_classes bd);
           gen = generate_remediation env (bd_name bd) (bd_data_classes bd) s;
           new_breach =
             \<lparr>be_id = 0, monitored_email_id = mid, breach_name = bd_name bd,
              data_classes = bd_data_classes bd, severity = label severity_result,
              severity_score = score severity_result, is_notified = False,
              notified_at = None, remediation_text = Some (fst gen)\<rparr>
       in case flush_breach_event new_breach (snd gen) of
            Inl e \<Rightarrow> (Some e, snd gen, cnt, q)
          | Inr (new_id, s2) \<Rightarrow>
              if broker_accepts env new_id
              then scan_loop env mid raws s2 (cnt + 1) (q @ [new_id])
              else (Some OperationalError, s2, cnt + 1, q))"

text \<open>
  The task's outcome: \<open>{"email_id", "new_breaches"}\<close>, or, after the handler's
  rollback, the retry or the terminal error result (which of the two is the queue's
  retry counter's business).
\<close>

datatype scan_outcome = Scanned nat | ScanFailed nat py_exn

definition process_single_email ::
  "collaborators \<Rightarrow> database \<Rightarrow> nat \<Rightarrow> scan_outcome \<times> database \<times> nat list"
where
  "process_single_email env db monitored_email_id' =
    (let s = open_session db in
     case find (\<lambda>m. me_id m = monitored_email_id') (monitored_emails (working s)) of
       None \<Rightarrow> (Scanned 0, committed s, [])
     | Some monitored_email \<Rightarrow>
         if \<not> is_active monitored_email then (Scanned 0, committed s, [])
         else
           (case decrypt_email env (email_encrypted monitored_email) of
              None \<Rightarrow> (ScanFailed 0 ValueError, committed (rollback s), [])
            | Some decrypted_email \<Rightarrow>
                (case get_breaches_for_email env decrypted_email of
                   Inl e \<Rightarrow> (ScanFailed 0 e, committed (rollback s), [])
                 | Inr breaches \<Rightarrow>
                     (case scan_loop env monitored_email_id' breaches s 0 [] of
                        (Some e, s', cnt, q) \<Rightarrow>
                          (ScanFailed cnt e, committed (rollback s'), q)
                      | (None, s', cnt, q) \<Rightarrow>
                          (Scanned cnt,
                           committed (commit (s'\<lparr>working := (working s')\<lparr>monitored_emails :=
                             update_first (\<lambda>m. me_id m = monitored_email_id')
                               (\<lambda>m. m\<lparr>last_scanned_at := Some (utcnow env),
                                       scan_count := scan_count m + 1\<rparr>)
                               (monitored_emails (working s'))\<rparr>\<rparr>)),
                           q)))))"

section \<open>Alert dispatch orchestrator (dispatch\_alerts)\<close>

text \<open>
  The task's outcome: \<open>{"breach_event_id", "channels_notified"}\<close>, or, after the
  handler's rollback, the retry or the terminal error result.
\<close>

datatype dispatch_outcome = Dispatched "string list" | DispatchFailed "string list" py_exn

definition dispatch_alerts ::
  "collaborators \<Rightarrow> database \<Rightarrow> nat \<Rightarrow> dispatch_outcome \<times> database"
where
  "dispatch_alerts env db breach_event_id =
    (let s = open_session db; w = working s in
     case find (\<lambda>e. be_id e = breach_event_id) (breach_events w) of
       None \<Rightarrow> (Dispatched [], committed s)
     | Some breach_event \<Rightarrow>
         if is_notified breach_event then (Dispatched [], committed s)
         else
           (case find (\<lambda>m. me_id m = monitored_email_id breach_event) (monitored_emails w) of
              None \<Rightarrow> (DispatchFailed [] AttributeError, committed (rollback s))
            | Some monitored_email \<Rightarrow>
                (case find (\<lambda>u. u_id u = user_id monitored_email) (users w) of
                   None \<Rightarrow> (DispatchFailed [] AttributeError, committed (rollback s))
                 | Some owner \<Rightarrow>
                     let preview_address = email_preview monitored_email;
                         email_result =
                           send_breach_alert env (u_email owner) (breach_name breach_event)
                             (severity breach_event);
                         email_log =
                           \<lparr>al_breach_event_id = breach_event_id, channel = ''email'',
                            recipient = u_email owner, status = result_status email_result,
                            error_message = result_error email_result\<rparr>;
                         w1 = w\<lparr>alert_logs := alert_logs w @ [email_log]\<rparr>;
                         channels = (if result_status email_result = ''sent'' then [''email''] else []);
                         mark = (\<lambda>v. v\<lparr>breach_events :=
                                   update_first (\<lambda>e. be_id e = breach_event_id)
                                     (\<lambda>e. e\<lparr>is_notified := True, notified_at := Some (utcnow env)\<rparr>)
                                     (breach_events v)\<rparr>)
                     in
                       (case phone_number owner of
                          None \<Rightarrow>
                            (Dispatched channels, committed (commit (s\<lparr>working := mark w1\<rparr>)))
                        | Some phone \<Rightarrow>
                            if phone = [] then
                              (Dispatched channels, committed (commit (s\<lparr>working := mark w1\<rparr>)))
                            else
                              (case fst (send_breach_sms env phone (breach_name breach_event)
                                           (severity breach_event) preview_address) of
                                 Inl e \<Rightarrow>
                                   (DispatchFailed channels e,
                                    committed (rollback (s\<lparr>working := w1\<rparr>)))
                               | Inr sms_result \<Rightarrow>
                                   let sms_log =
                                         \<lparr>al_breach_event_id = breach_event_id, channel = ''sms'',
                                          recipient = phone, status = result_status sms_result,
                                          error_message = result_error sms_result\<rparr>;
                                       w2 = w1\<lparr>alert_logs := alert_logs w1 @ [sms_log]\<rparr>;
                                       channels2 =
                                         (if result_status sms_result = ''sent''
                                          then channels @ [''sms''] else channels)
                                   in (Dispatched channels2,
                                       committed (commit (s\<lparr>working := mark w2\<rparr>))))))))"

section \<open>The specification's reading of the top risk\<close>

text \<open>
  The specification's words for the top-risk category: the highest-weight category among
  the matched (recognised) ones, the first of them on a tie.
\<close>

definition spec_top_risk :: "string list \<Rightarrow> string" where
  "spec_top_risk categories =
    (let matched = filter recognized categories;
         best = Max (set (map weight_of matched))
     in hd (filter (\<lambda>c. weight_of c = best) matched))"

text \<open>
  The specification's words for the critical allowlist (credentials, payment instruments,
  government IDs, biometrics, auth tokens), read on the categories of the weight table:
  the six names of \<open>critical_types\<close> and the two further government-ID categories.
\<close>

definition spec_critical_allowlist :: "string set" where
  "spec_critical_allowlist =
    {''Passwords'', ''Credit cards'', ''Bank account numbers'', ''Social security numbers'',
     ''Passport numbers'', ''Government issued IDs'', ''Biometric data'', ''Auth tokens''}"

section \<open>Auxiliary notions for the properties\<close>

text \<open>A string without brace characters, which \<open>str.format\<close> copies unchanged.\<close>

definition brace_free :: "string \<Rightarrow> bool" where
  "brace_free s = (CHR ''{'' \<notin> set s \<and> CHR ''}'' \<notin> set s)"

text \<open>
  The store holds a breach event for the pair (monitored email, breach name): the
  deduplication query of the ingestion loop finds a row.
\<close>

definition pair_taken :: "BreachEvent list \<Rightarrow> nat \<Rightarrow> string \<Rightarrow> bool" where
  "pair_taken evs mid bname =
    (find (\<lambda>e. monitored_email_id e = mid \<and> breach_name e = bname) evs \<noteq> None)"

text \<open>The unique constraint \<open>uix_email_breach\<close> of the \<open>breach_events\<close> table.\<close>

definition unique_pairs :: "BreachEvent list \<Rightarrow> bool" where
  "unique_pairs evs = distinct (map (\<lambda>e. (monitored_email_id e, breach_name e)) evs)"

text \<open>
  The invariant of a session inside a scan that started from the store \<open>db\<close>: the
  transaction's view extends the committed rows, these extend the rows of \<open>db\<close>, the
  added rows are not notified, and the monitored emails are those of \<open>db\<close>.
\<close>

definition scan_inv :: "database \<Rightarrow> session \<Rightarrow> bool" where
  "scan_inv db s =
    ((\<exists>a. breach_events (working s) = breach_events (committed s) @ a
          \<and> (\<forall>e \<in> set a. \<not> is_notified e))
     \<and> (\<exists>b. breach_events (committed s) = breach_events db @ b
          \<and> (\<forall>e \<in> set b. \<not> is_notified e))
     \<and> monitored_emails (working s) = monitored_emails db
     \<and> monitored_emails (committed s) = monitored_emails db)"

section \<open>A small store and its collaborators, for concrete runs\<close>

text \<open>
  One user with a phone number, one active monitored email, a feed of two breaches and
  collaborators that all answer; the digest function is left as the identity, since the
  runs below only compare keys for equality.
\<close>

definition demo_user :: User where
  "demo_user = \<lparr>u_id = 1, u_email = ''owner@example.com'', phone_number = Some ''+15550100''\<rparr>"

definition demo_email :: MonitoredEmail where
  "demo_email =
    \<lparr>me_id = 1, email_encrypted = ''gAAAAAB'', email_preview = ''own***@example.com'',
     user_id = 1, is_active = True, last_scanned_at = None, scan_count = 0\<rparr>"

definition demo_event :: BreachEvent where
  "demo_event =
    \<lparr>be_id = 1, monitored_email_id = 1, breach_name = ''Adobe'',
     data_classes = [''Passwords''], severity = ''CRITICAL'', severity_score = 25,
     is_notified = False, notified_at = None, remediation_text = None\<rparr>"

definition demo_store :: database where
  "demo_store =
    \<lparr>users = [demo_user], monitored_emails = [demo_email], breach_events = [],
     alert_logs = [], remediation_cache = []\<rparr>"

definition demo_feed :: "raw_breach list" where
  "demo_feed =
    [\<lparr>Name = Some ''Adobe'', DataClasses = Some [''Passwords'']\<rparr>,
     \<lparr>Name = Some ''LinkedIn'', DataClasses = Some [''Email addresses'']\<rparr>]"

definition demo_env :: collaborators where
  "demo_env =
    \<lparr>decrypt_email = (\<lambda>_. Some ''owner@example.com''),
     get_breaches_for_email = (\<lambda>_. Inr demo_feed),
     claude = (\<lambda>_ _. Some ''Change the password.''),
     sha256_hex = (\<lambda>raw_key. raw_key),
     broker_accepts = (\<lambda>_. True),
     sendgrid_send = (\<lambda>_ _ _. Inr 202),
     twilio_create = (\<lambda>_ _. Inr ''SM1''),
     utcnow = 1700000000,
     cache_store_accepts = (\<lambda>_. True)\<rparr>"

definition demo_store_scanned :: database where
  "demo_store_scanned =
    \<lparr>users = [demo_user],
     monitored_emails =
       [demo_email\<lparr>last_scanned_at := Some 1700000000, scan_count := 1\<rparr>],
     breach_events =
       [\<lparr>be_id = 1, monitored_email_id = 1, breach_name = ''Adobe'',
         data_classes = [''Passwords''], severity = ''CRITICAL'', severity_score = 25,
         is_notified = False, notified_at = None,
         remediation_text = Some ''Change the password.''\<rparr>,
        \<lparr>be_id = 2, monitored_email_id = 1, breach_name = ''LinkedIn'',
         data_classes = [''Email addresses''], severity = ''LOW'', severity_score = 5,
         is_notified = False, notified_at = None,
         remediation_text = Some ''Change the password.''\<rparr>],
     alert_logs = [],
     remediation_cache =
       [\<lparr>cache_key = ''Adobe|Passwords'', rc_breach_name = ''Adobe'',
         data_classes_json = [''Passwords''], rc_remediation_text = ''Change the password.'',
         hit_count = 1\<rparr>,
        \<lparr>cache_key = ''LinkedIn|Email addresses'', rc_breach_name = ''LinkedIn'',
         data_classes_json = [''Email addresses''], rc_remediation_text = ''Change the password.'',
         hit_count = 1\<rparr>]\<rparr>"

text \<open>
  The store after a first scan of the demo feed in which the store refused the cache row
  of the second breach: the handler's rollback dropped the flushed Adobe event, and the
  LinkedIn event took the id 1 again.
\<close>

definition demo_store_lost_event :: database where
  "demo_store_lost_event =
    \<lparr>users = [demo_user],
     monitored_emails =
       [demo_email\<lparr>last_scanned_at := Some 1700000000, scan_count := 1\<rparr>],
     breach_events =
       [\<lparr>be_id = 1, monitored_email_id = 1, breach_name = ''LinkedIn'',
         data_classes = [''Email addresses''], severity = ''LOW'', severity_score = 5,
         is_notified = False, notified_at = None,
         remediation_text = Some ''Change the password.''\<rparr>],
     alert_logs = [],
     remediation_cache =
       [\<lparr>cache_key = ''Adobe|Passwords'', rc_breach_name = ''Adobe'',
         data_classes_json = [''Passwords''], rc_remediation_text = ''Change the password.'',
         hit_count = 1\<rparr>]\<rparr>"

section \<open>Properties of the severity engine\<close>

lemma weights_bounds: "(k, v) \<in> set DATA_CLASS_WEIGHTS \<Longrightarrow> 1 \<le> v \<and> v \<le> 25"
  unfolding DATA_CLASS_WEIGHTS_def by auto

lemma weight_of_bounds: "1 \<le> weight_of c \<and> weight_of c \<le> 25"
proof (cases "map_of DATA_CLASS_WEIGHTS c")
  case None
  then show ?thesis by (simp add: weight_of_def)
next
  case (Some w)
  then have "(c, w) \<in> set DATA_CLASS_WEIGHTS" by (rule map_of_SomeD)
  with weights_bounds Some show ?thesis by (simp add: weight_of_def)
qed

lemma threshold_values:
  "threshold ''CRITICAL'' = 25" "threshold ''HIGH'' = 12" "threshold ''MEDIUM'' = 6"
  by (simp_all add: threshold_def SEVERITY_THRESHOLDS_def)

lemma score_loop_snoc:
  "score_loop (cs @ [c]) st = score_loop [c] (score_loop cs st)"
proof (induction cs st rule: score_loop.induct)
  case (1 st)
  then show ?case by simp
next
  case (2 c' cs raw_score matched top_r highest)
  then show ?case by (simp add: Let_def)
qed

lemma score_loop_raw:
  "fst (score_loop cs (r, m, t, h)) = r + sum_list (map weight_of cs)"
  by (induction cs arbitrary: r m t h) (simp_all add: Let_def)

lemma is_critical_breach_iff: "is_critical_breach cs \<longleftrightarrow> (\<exists>c \<in> set cs. c \<in> critical_types)"
  by (induction cs) auto

lemma sum_weights_nonneg: "0 \<le> sum_list (map weight_of cs)"
proof (induction cs)
  case Nil
  show ?case by simp
next
  case (Cons c cs)
  have "1 \<le> weight_of c" using weight_of_bounds by blast
  with Cons show ?case by simp
qed

lemma score_loop_cases:
  obtains r m t h where "score_loop cs st = (r, m, t, h)"
  by (metis prod_cases4)

lemma calculate_severity_score:
  "score (calculate_severity cs) =
    (if cs = [] then 0
     else let s0 = min (sum_list (map weight_of cs)) 100
          in if is_critical_breach cs \<or> 25 \<le> s0 then max s0 25 else s0)"
proof (cases "cs = []")
  case True
  then show ?thesis by (simp add: calculate_severity_def)
next
  case False
  obtain r m t h where sl: "score_loop cs (0, [], ''None'', - 1) = (r, m, t, h)"
    by (rule score_loop_cases)
  have "r = sum_list (map weight_of cs)"
    using score_loop_raw [of cs 0 "[]" "''None''" "- 1"] sl by simp
  with False sl show ?thesis
    by (simp add: calculate_severity_def Let_def threshold_values)
qed

lemma calculate_severity_label_critical:
  assumes "is_critical_breach cs"
  shows "label (calculate_severity cs) = ''CRITICAL''"
proof -
  from assms have ne: "cs \<noteq> []" by auto
  obtain r m t h where sl: "score_loop cs (0, [], ''None'', - 1) = (r, m, t, h)"
    by (rule score_loop_cases)
  from ne sl assms show ?thesis
    by (simp add: calculate_severity_def Let_def)
qed

lemma score_loop_top:
  assumes "cs \<noteq> []" and "score_loop cs (0, [], ''None'', - 1) = (r, m, t, h)"
  shows "\<exists>i<length cs. t = cs ! i \<and> h = weight_of (cs ! i)
           \<and> (\<forall>j<length cs. weight_of (cs ! j) \<le> h)
           \<and> (\<forall>j<i. weight_of (cs ! j) < h)"
  using assms
proof (induction cs arbitrary: r m t h rule: rev_induct)
  case Nil
  then show ?case by simp
next
  case (snoc c cs)
  obtain r0 m0 t0 h0 where sl: "score_loop cs (0, [], ''None'', - 1) = (r0, m0, t0, h0)"
    by (rule score_loop_cases)
  have step: "score_loop [c] (r0, m0, t0, h0) = (r, m, t, h)"
    using snoc.prems(2) sl by (simp add: score_loop_snoc)
  have wpos: "1 \<le> weight_of c" using weight_of_bounds by blast
  show ?case
  proof (cases "cs = []")
    case True
    with sl have "h0 = - 1" by simp
    with step wpos have "t = c" "h = weight_of c" by (auto simp: Let_def)
    with True show ?thesis by simp
  next
    case False
    from snoc.IH [OF False sl] obtain i where i: "i < length cs" "t0 = cs ! i"
      "h0 = weight_of (cs ! i)" "\<forall>j<length cs. weight_of (cs ! j) \<le> h0"
      "\<forall>j<i. weight_of (cs ! j) < h0"
      by blast
    show ?thesis
    proof (cases "weight_of c > h0")
      case True
      with step have th: "t = c" "h = weight_of c" by (auto simp: Let_def)
      have "\<forall>j<length (cs @ [c]). weight_of ((cs @ [c]) ! j) \<le> h"
        using i(4) True th by (auto simp: nth_append less_Suc_eq)
      moreover have "\<forall>j<length cs. weight_of ((cs @ [c]) ! j) < h"
        using i(4) True th by (auto simp: nth_append)
      ultimately show ?thesis using th
        by (intro exI [of _ "length cs"]) simp
    next
      case False
      with step have th: "t = t0" "h = h0" by (auto simp: Let_def)
      have "\<forall>j<length (cs @ [c]). weight_of ((cs @ [c]) ! j) \<le> h"
        using i(4) False th by (auto simp: nth_append less_Suc_eq)
      moreover have "\<forall>j<i. weight_of ((cs @ [c]) ! j) < h"
        using i(1,5) th by (auto simp: nth_append)
      ultimately show ?thesis using th i(1,2,3)
        by (intro exI [of _ i]) (simp add: nth_append)
    qed
  qed
qed

text \<open>
  Claim C3, as the code has it. Whenever the category list holds at least one of the six
  categories of the allowlist that \<open>is_critical_breach\<close> fixes (Passwords, Credit
  cards, Bank account numbers, Social security numbers, Auth tokens, Biometric data),
  \<open>calculate_severity\<close> labels the breach CRITICAL and its score is at least the
  CRITICAL threshold, 25, whatever the weights sum to.
\<close>

theorem critical_allowlist_forces_CRITICAL:
  assumes "\<exists>c \<in> set categories. c \<in> critical_types"
  shows "label (calculate_severity categories) = ''CRITICAL''
         \<and> threshold ''CRITICAL'' \<le> score (calculate_severity categories)
         \<and> threshold ''CRITICAL'' = 25"
proof -
  from assms have crit: "is_critical_breach categories"
    by (simp add: is_critical_breach_iff)
  then have ne: "categories \<noteq> []" by auto
  have "25 \<le> score (calculate_severity categories)"
    using crit ne by (simp add: calculate_severity_score Let_def)
  with crit show ?thesis
    by (simp add: calculate_severity_label_critical threshold_values)
qed

text \<open>
  At \<open>["Usernames", "Auth tokens"]\<close> the weights sum to 24, below the threshold, and the
  allowlisted category alone lifts label and score.
\<close>

theorem critical_allowlist_forces_CRITICAL_witness:
  "(\<exists>c \<in> set [''Usernames'', ''Auth tokens'']. c \<in> critical_types)
   \<and> sum_list (map weight_of [''Usernames'', ''Auth tokens'']) = 24
   \<and> label (calculate_severity [''Usernames'', ''Auth tokens'']) = ''CRITICAL''
   \<and> score (calculate_severity [''Usernames'', ''Auth tokens'']) = 25"
proof -
  have h: "\<exists>c \<in> set [''Usernames'', ''Auth tokens'']. c \<in> critical_types"
    by (simp add: critical_types_def)
  have s: "sum_list (map weight_of [''Usernames'', ''Auth tokens'']) = 24"
    by (simp add: weight_of_def DATA_CLASS_WEIGHTS_def)
  have v: "score (calculate_severity [''Usernames'', ''Auth tokens'']) = 25"
    using h s by (simp add: calculate_severity_score is_critical_breach_iff Let_def)
  from critical_allowlist_forces_CRITICAL [OF h] h s v show ?thesis by simp
qed

text \<open>
  Claim C3 as stated, with government IDs on the allowlist, fails: the categories
  Government issued IDs and Passport numbers are not among the six names, and a breach
  that exposes only Government issued IDs is labelled HIGH with the score 20.
\<close>

theorem government_id_not_forced_CRITICAL:
  "''Government issued IDs'' \<in> spec_critical_allowlist
   \<and> label (calculate_severity [''Government issued IDs'']) = ''HIGH''
   \<and> score (calculate_severity [''Government issued IDs'']) = 20"
  by code_simp

text \<open>
  Claim C5. For every category list the score of \<open>calculate_severity\<close> lies between 0
  and 100, and appending a category never lowers it.
\<close>

theorem score_range_and_monotone:
  "0 \<le> score (calculate_severity categories)
   \<and> score (calculate_severity categories) \<le> 100
   \<and> score (calculate_severity categories) \<le> score (calculate_severity (categories @ [c]))"
proof -
  let ?s = "sum_list (map weight_of categories)"
  have s0: "0 \<le> ?s" by (rule sum_weights_nonneg)
  have w: "1 \<le> weight_of c" using weight_of_bounds by blast
  have mono: "is_critical_breach categories \<Longrightarrow> is_critical_breach (categories @ [c])"
    by (auto simp: is_critical_breach_iff)
  have r1: "0 \<le> score (calculate_severity categories)"
    using s0 by (auto simp: calculate_severity_score Let_def)
  have r2: "score (calculate_severity categories) \<le> 100"
    by (auto simp: calculate_severity_score Let_def)
  have r3: "score (calculate_severity categories)
            \<le> score (calculate_severity (categories @ [c]))"
  proof (cases "categories = []")
    case True
    then show ?thesis using w by (auto simp: calculate_severity_score Let_def)
  next
    case False
    then show ?thesis using s0 w mono
      by (auto simp: calculate_severity_score Let_def)
  qed
  from r1 r2 r3 show ?thesis by simp
qed

theorem score_range_and_monotone_witness:
  "score (calculate_severity [''Names'']) = 3
   \<and> score (calculate_severity ([''Names''] @ [''Passwords''])) = 28
   \<and> score (calculate_severity [''Names'']) \<le> score (calculate_severity ([''Names''] @ [''Passwords'']))"
proof -
  have a: "score (calculate_severity [''Names'']) = 3" by code_simp
  have b: "score (calculate_severity ([''Names''] @ [''Passwords''])) = 28" by code_simp
  from score_range_and_monotone [of "[''Names'']" "''Passwords''"] a b show ?thesis by simp
qed

text \<open>
  Claim C9, as the code has it. For every non-empty category list the top-risk category
  is the first category of the input whose weight is the largest among all the input's
  categories, where an unrecognised category weighs the default 2 and competes like any
  other: every category weighs at most as much, and every earlier one strictly less.
\<close>

theorem top_risk_first_heaviest_exposed:
  assumes "categories \<noteq> []"
  shows "\<exists>i<length categories.
           top_risk (calculate_severity categories) = categories ! i
           \<and> (\<forall>j<length categories. weight_of (categories ! j) \<le> weight_of (categories ! i))
           \<and> (\<forall>j<i. weight_of (categories ! j) < weight_of (categories ! i))"
proof -
  obtain r m t h where sl: "score_loop categories (0, [], ''None'', - 1) = (r, m, t, h)"
    by (rule score_loop_cases)
  have tr: "top_risk (calculate_severity categories) = t"
    using assms sl by (simp add: calculate_severity_def Let_def)
  from score_loop_top [OF assms sl] tr show ?thesis by auto
qed

theorem top_risk_first_heaviest_exposed_witness:
  "[''Foo'', ''Avatars''] \<noteq> []
   \<and> (\<exists>i<length [''Foo'', ''Avatars''].
         top_risk (calculate_severity [''Foo'', ''Avatars'']) = [''Foo'', ''Avatars''] ! i
         \<and> (\<forall>j<length [''Foo'', ''Avatars''].
               weight_of ([''Foo'', ''Avatars''] ! j) \<le> weight_of ([''Foo'', ''Avatars''] ! i))
         \<and> (\<forall>j<i. weight_of ([''Foo'', ''Avatars''] ! j) < weight_of ([''Foo'', ''Avatars''] ! i)))"
proof -
  have ne: "[''Foo'', ''Avatars''] \<noteq> []" by simp
  from top_risk_first_heaviest_exposed [OF ne] ne show ?thesis by blast
qed

text \<open>
  Claim C9 as the specification words it fails: for \<open>["Foo", "Avatars"]\<close> the only
  matched category is Avatars, yet the code answers the unrecognised Foo, whose default
  weight 2 exceeds the weight 1 of Avatars.
\<close>

theorem top_risk_counterexample:
  "top_risk (calculate_severity [''Foo'', ''Avatars'']) \<noteq> spec_top_risk [''Foo'', ''Avatars'']"
  by code_simp

section \<open>Properties of the SMS channel\<close>

lemma str_format_plain_char:
  "c \<noteq> CHR ''{'' \<Longrightarrow> c \<noteq> CHR ''}'' \<Longrightarrow>
   str_format (c # rest) arg n = map_sum id ((#) c) (str_format rest arg n)"
  by (cases rest) simp_all

lemma str_format_plain_prefix:
  "brace_free xs \<Longrightarrow> str_format (xs @ ys) arg n = map_sum id ((@) xs) (str_format ys arg n)"
proof (induction xs)
  case Nil
  show ?case by (cases "str_format ys arg n") simp_all
next
  case (Cons c xs)
  then have c: "c \<noteq> CHR ''{''" "c \<noteq> CHR ''}''" and xs: "brace_free xs"
    by (auto simp: brace_free_def)
  show ?case
    using Cons.IH [OF xs] c
    by (cases "str_format ys arg n") (simp_all add: str_format_plain_char)
qed

lemma str_format_tail:
  "str_format ''{} breach. Change your password NOW. Reply STOP to unsubscribe.'' arg 0
   = Inr (arg @ '' breach. Change your password NOW. Reply STOP to unsubscribe.'')"
  by simp

lemma base_structure_split:
  "base_structure sev preview =
    (''[BreachShield] '' @ sev @ '' ALERT: '' @ preview @ '' found in '')
    @ ''{} breach. Change your password NOW. Reply STOP to unsubscribe.''"
  by (simp add: base_structure_def)

lemma brace_free_head:
  "brace_free sev \<Longrightarrow> brace_free preview \<Longrightarrow>
   brace_free (''[BreachShield] '' @ sev @ '' ALERT: '' @ preview @ '' found in '')"
  by (simp add: brace_free_def)

lemma format_base_structure:
  assumes "brace_free sev" "brace_free preview"
  shows "str_format (base_structure sev preview) arg 0 =
    Inr (''[BreachShield] '' @ sev @ '' ALERT: '' @ preview @ '' found in '' @ arg
         @ '' breach. Change your password NOW. Reply STOP to unsubscribe.'')"
  unfolding base_structure_split
  by (subst str_format_plain_prefix [OF brace_free_head [OF assms]])
     (simp only: str_format_tail map_sum.simps append_assoc)

lemma length_base_structure:
  "length (base_structure sev preview) = 96 + length sev + length preview"
  by (simp add: base_structure_def)

text \<open>
  Where the code keeps its bound. For every breach name, and for every severity string
  and email preview that are free of brace characters and whose lengths add up to at
  most 63, \<open>build_sms_message\<close> passes its length assertion and returns a body of at
  most 160 characters: the fixed boilerplate verbatim around the breach name, which is
  kept whole when it fits the room left (66 minus the two lengths) and is otherwise cut
  to the room less three characters and followed by the ellipsis \<open>...\<close>.
\<close>

theorem build_sms_message_fits:
  assumes "brace_free sev" and "brace_free preview"
    and "length sev + length preview \<le> 63"
  shows "build_sms_message bname sev preview =
           Inr (''[BreachShield] '' @ sev @ '' ALERT: '' @ preview @ '' found in ''
                @ (if length bname \<le> 66 - (length sev + length preview)
                   then bname
                   else take (63 - (length sev + length preview)) bname @ ''...'')
                @ '' breach. Change your password NOW. Reply STOP to unsubscribe.'')
         \<and> (\<forall>m. build_sms_message bname sev preview = Inr m \<longrightarrow> length m \<le> 160)"
proof -
  define room where "room = 66 - (length sev + length preview)"
  have room3: "3 \<le> room" and room_eq: "room - 3 = 63 - (length sev + length preview)"
    using assms(3) by (simp_all add: room_def)
  have avail: "160 - (int (length (base_structure sev preview)) - 2) = int room"
    using assms(3) by (simp add: length_base_structure room_def)
  have fmt: "\<And>arg. str_format (base_structure sev preview) arg 0 =
      Inr (''[BreachShield] '' @ sev @ '' ALERT: '' @ preview @ '' found in '' @ arg
           @ '' breach. Change your password NOW. Reply STOP to unsubscribe.'')"
    by (rule format_base_structure [OF assms(1,2)])
  have len: "length sev + length preview + room = 66"
    using assms(3) by (simp add: room_def)
  have main: "build_sms_message bname sev preview =
           Inr (''[BreachShield] '' @ sev @ '' ALERT: '' @ preview @ '' found in ''
                @ (if length bname \<le> room then bname else take (room - 3) bname @ ''...'')
                @ '' breach. Change your password NOW. Reply STOP to unsubscribe.'')"
  proof (cases "length bname \<le> room")
    case True
    then have ngt: "\<not> int (length bname) > int room" by simp
    show ?thesis
      unfolding build_sms_message_def Let_def avail fmt
      using True ngt len by simp
  next
    case False
    then have gt: "int (length bname) > int room" by simp
    have sl: "slice_to bname (int room - 3) = take (room - 3) bname"
      using room3 by (simp add: slice_to_def nat_diff_distrib')
    have lt: "length (take (room - 3) bname) = room - 3"
      using False by simp
    show ?thesis
      unfolding build_sms_message_def Let_def avail fmt sl
      using False gt len lt room3 by simp
  qed
  have bound: "\<forall>m. build_sms_message bname sev preview = Inr m \<longrightarrow> length m \<le> 160"
    by (auto simp: build_sms_message_def Let_def split: sum.splits if_splits)
  from main bound show ?thesis
    unfolding room_eq unfolding room_def by simp
qed

theorem build_sms_message_fits_witness:
  "brace_free ''CRITICAL'' \<and> brace_free ''own***@example.com''
   \<and> build_sms_message ''LinkedIn'' ''CRITICAL'' ''own***@example.com''
      = Inr ''[BreachShield] CRITICAL ALERT: own***@example.com found in LinkedIn breach. Change your password NOW. Reply STOP to unsubscribe.''
   \<and> build_sms_message ''A breach name that is far too long to fit in one text'' ''CRITICAL''
        ''own***@example.com''
      = Inr ''[BreachShield] CRITICAL ALERT: own***@example.com found in A breach name that is far too long to... breach. Change your password NOW. Reply STOP to unsubscribe.''"
proof -
  have b: "brace_free ''CRITICAL''" "brace_free ''own***@example.com''"
    by (simp_all add: brace_free_def)
  have l: "length ''CRITICAL'' + length ''own***@example.com'' \<le> 63" by simp
  from build_sms_message_fits [OF b l, of "''LinkedIn''"]
    build_sms_message_fits [OF b l, of "''A breach name that is far too long to fit in one text''"]
    b
  show ?thesis by simp
qed

text \<open>
  Claim C1 fails on the code. The truncation assumes that the room left for the name is
  at least 3. With the severity CRITICAL and a preview of 59 characters the room is
  negative, the slice cuts from the end of the name (\<open>Link...\<close>) and the body has 168
  characters; with a preview of 56 characters the room is 2, the slice index is -1 and
  the body has 168 characters again. In both runs the function's own length assertion
  fails, so the function raises instead of returning a body within the limit that its
  docstring promises.
\<close>

theorem build_sms_message_assertion_fails:
  "build_sms_message ''LinkedIn'' ''CRITICAL''
     ''joh***@mail.informatics.university-of-somewhere.example.org'' = Inl AssertionError
   \<and> build_sms_message ''LinkedIn'' ''CRITICAL''
     ''joh***@c.informatics.university-of-somewhere.example.org'' = Inl AssertionError"
  by code_simp

text \<open>A single closing brace in the severity makes \<open>str.format\<close> raise instead.\<close>

lemma build_sms_message_lone_brace:
  "build_sms_message ''LinkedIn'' ''}'' ''own***@example.com'' = Inl ValueError"
  by (simp add: build_sms_message_def base_structure_def Let_def)

text \<open>
  Claim C10. For every severity label other than CRITICAL and HIGH,
  \<open>send_breach_sms\<close> answers the skipped result with the reason
  \<open>severity_below_threshold\<close> and makes no provider call; whenever a provider call is
  made the severity is CRITICAL or HIGH.
\<close>

theorem sms_only_for_critical_and_high:
  "(sev \<noteq> ''CRITICAL'' \<and> sev \<noteq> ''HIGH'' \<longrightarrow>
      send_breach_sms env to_phone bname sev preview
        = (Inr (Skipped ''severity_below_threshold''), []))
   \<and> (snd (send_breach_sms env to_phone bname sev preview) \<noteq> [] \<longrightarrow>
      sev = ''CRITICAL'' \<or> sev = ''HIGH'')"
  by (auto simp: send_breach_sms_def)

theorem sms_only_for_critical_and_high_witness:
  "''MEDIUM'' \<noteq> ''CRITICAL'' \<and> ''MEDIUM'' \<noteq> ''HIGH''
   \<and> send_breach_sms demo_env ''+15550100'' ''TestBreach'' ''MEDIUM'' ''you***@example.com''
       = (Inr (Skipped ''severity_below_threshold''), [])
   \<and> snd (send_breach_sms demo_env ''+15550100'' ''LinkedIn'' ''CRITICAL'' ''you***@example.com'')
       \<noteq> []"
proof -
  have h: "''MEDIUM'' \<noteq> ''CRITICAL'' \<and> ''MEDIUM'' \<noteq> ''HIGH''" by simp
  have c: "snd (send_breach_sms demo_env ''+15550100'' ''LinkedIn'' ''CRITICAL'' ''you***@example.com'')
       \<noteq> []"
    by (simp add: send_breach_sms_def build_sms_message_def base_structure_def slice_to_def
        isdigit_def demo_env_def Let_def)
  from sms_only_for_critical_and_high
    [of "''MEDIUM''" demo_env "''+15550100''" "''TestBreach''" "''you***@example.com''"] h c
  show ?thesis by simp
qed

section \<open>Properties of the remediation cache key\<close>

text \<open>
  Claim C8. For every breach name and every two category lists that are permutations of
  each other, \<open>_build_cache_key\<close> computes the same key, whatever the digest function.
\<close>

theorem cache_key_permutation_invariant:
  assumes "mset xs = mset ys"
  shows "build_cache_key sha256 bname xs = build_cache_key sha256 bname ys"
proof -
  have "sort xs = sort ys"
    using assms by (intro properties_for_sort) simp_all
  then show ?thesis by (simp add: build_cache_key_def)
qed

theorem cache_key_permutation_invariant_witness:
  "mset [''Passwords'', ''Email addresses''] = mset [''Email addresses'', ''Passwords'']
   \<and> build_cache_key (sha256_hex demo_env) ''Adobe'' [''Passwords'', ''Email addresses'']
       = build_cache_key (sha256_hex demo_env) ''Adobe'' [''Email addresses'', ''Passwords'']"
proof -
  have m: "mset [''Passwords'', ''Email addresses''] = mset [''Email addresses'', ''Passwords'']"
    by (simp add: add_mset_commute)
  from cache_key_permutation_invariant [OF m, of "sha256_hex demo_env" "''Adobe''"] m
  show ?thesis by simp
qed

section \<open>Properties of the store and of the ingestion loop\<close>

lemma find_update_first:
  "(\<And>x. P x \<Longrightarrow> P (f x)) \<Longrightarrow> find P (update_first P f xs) = map_option f (find P xs)"
  by (induction xs) auto

lemma length_update_first [simp]: "length (update_first P f xs) = length xs"
  by (induction xs) auto


lemma open_session_simps [simp]:
  "committed (open_session db) = db" "working (open_session db) = db"
  by (simp_all add: open_session_def)

lemma commit_simps [simp]:
  "committed (commit s) = working s" "working (commit s) = working s"
  by (simp_all add: commit_def)

lemma rollback_simps [simp]:
  "committed (rollback s) = committed s" "working (rollback s) = committed s"
  by (simp_all add: rollback_def)

lemma dispatch_guard:
  assumes "find (\<lambda>e. be_id e = i) (breach_events db) = None
           \<or> (\<exists>e. find (\<lambda>e. be_id e = i) (breach_events db) = Some e \<and> is_notified e)"
  shows "dispatch_alerts env db i = (Dispatched [], db)"
  using assms by (auto simp: dispatch_alerts_def Let_def)

lemma dispatch_result_cases:
  assumes "find (\<lambda>e. be_id e = i) (breach_events db) = Some e" and "\<not> is_notified e"
  shows "(\<exists>chans x. dispatch_alerts env db i = (DispatchFailed chans x, db))
       \<or> (\<exists>chans logs. dispatch_alerts env db i =
            (Dispatched chans,
             db\<lparr>alert_logs := alert_logs db @ logs,
                breach_events := update_first (\<lambda>e. be_id e = i)
                  (\<lambda>e. e\<lparr>is_notified := True, notified_at := Some (utcnow env)\<rparr>)
                  (breach_events db)\<rparr>))"
  using assms
  by (auto simp: dispatch_alerts_def Let_def split: option.splits sum.splits)

lemma pair_taken_iff:
  "pair_taken evs mid bname \<longleftrightarrow> (\<exists>e \<in> set evs. monitored_email_id e = mid \<and> breach_name e = bname)"
  by (auto simp: pair_taken_def find_None_iff)

lemma generate_remediation_cases:
  "(breach_events (working (snd (generate_remediation env bname classes s)))
      = breach_events (working s)
    \<and> monitored_emails (working (snd (generate_remediation env bname classes s)))
      = monitored_emails (working s)
    \<and> (committed (snd (generate_remediation env bname classes s)) = committed s
       \<or> committed (snd (generate_remediation env bname classes s))
           = working (snd (generate_remediation env bname classes s))))
   \<or> snd (generate_remediation env bname classes s) = rollback s"
  by (auto simp: generate_remediation_def Let_def insert_cache_entry_def find_None_iff
      split: option.splits sum.splits)

lemma generate_remediation_working:
  assumes "\<And>k. cache_store_accepts env k"
  shows "breach_events (working (snd (generate_remediation env bname classes s)))
     = breach_events (working s)"
  using assms
  by (auto simp: generate_remediation_def Let_def insert_cache_entry_def find_None_iff
      split: option.splits sum.splits)

lemma flush_breach_event_Inr:
  assumes "flush_breach_event ev s = Inr (i, s2)"
  shows "breach_events (working s2) = breach_events (working s) @ [ev\<lparr>be_id := i\<rparr>]"
    and "monitored_emails (working s2) = monitored_emails (working s)"
    and "committed s2 = committed s"
    and "\<not> pair_taken (breach_events (working s)) (monitored_email_id ev) (breach_name ev)"
  using assms
  by (auto simp: flush_breach_event_def Let_def pair_taken_iff split: if_splits)

lemma scan_inv_open: "scan_inv db (open_session db)"
  by (simp add: scan_inv_def)

lemma scan_inv_rollback:
  assumes "scan_inv db s"
  shows "scan_inv db (rollback s)"
  using assms by (auto simp: scan_inv_def)

lemma scan_inv_generate:
  assumes "scan_inv db s"
  shows "scan_inv db (snd (generate_remediation env bname classes s))"
proof -
  let ?s' = "snd (generate_remediation env bname classes s)"
  from assms obtain a b where a: "breach_events (working s) = breach_events (committed s) @ a"
      "\<forall>e \<in> set a. \<not> is_notified e"
    and b: "breach_events (committed s) = breach_events db @ b" "\<forall>e \<in> set b. \<not> is_notified e"
    and m: "monitored_emails (working s) = monitored_emails db"
           "monitored_emails (committed s) = monitored_emails db"
    by (auto simp: scan_inv_def)
  from generate_remediation_cases [of env bname classes s]
  show ?thesis
  proof (elim disjE conjE)
    assume w: "breach_events (working ?s') = breach_events (working s)"
          "monitored_emails (working ?s') = monitored_emails (working s)"
      and c: "committed ?s' = committed s"
    with a b m show ?thesis unfolding scan_inv_def by auto
  next
    assume w: "breach_events (working ?s') = breach_events (working s)"
          "monitored_emails (working ?s') = monitored_emails (working s)"
      and c: "committed ?s' = working ?s'"
    have "breach_events (working ?s') = breach_events db @ (b @ a)"
      using a(1) b(1) w(1) by simp
    moreover have "\<forall>e \<in> set (b @ a). \<not> is_notified e" using a(2) b(2) by auto
    ultimately show ?thesis using c m w unfolding scan_inv_def
      by (metis append_Nil2 empty_iff list.set(1))
  next
    assume "?s' = rollback s"
    with assms show ?thesis by (simp add: scan_inv_rollback)
  qed
qed

lemma scan_inv_flush:
  assumes "scan_inv db s" and "flush_breach_event ev s = Inr (i, s2)" and "\<not> is_notified ev"
  shows "scan_inv db s2"
proof -
  from assms(1) obtain a b where a: "breach_events (working s) = breach_events (committed s) @ a"
      "\<forall>e \<in> set a. \<not> is_notified e"
    and b: "breach_events (committed s) = breach_events db @ b" "\<forall>e \<in> set b. \<not> is_notified e"
    and m: "monitored_emails (working s) = monitored_emails db"
           "monitored_emails (committed s) = monitored_emails db"
    by (auto simp: scan_inv_def)
  note f = flush_breach_event_Inr [OF assms(2)]
  have "breach_events (working s2) = breach_events (committed s2) @ (a @ [ev\<lparr>be_id := i\<rparr>])"
    using f(1,3) a(1) by simp
  moreover have "\<forall>e \<in> set (a @ [ev\<lparr>be_id := i\<rparr>]). \<not> is_notified e"
    using a(2) assms(3) by auto
  ultimately show ?thesis
    using b m f(2,3) unfolding scan_inv_def by metis
qed

lemma scan_loop_inv:
  "scan_inv db s \<Longrightarrow> scan_loop env mid raws s cnt q = (r, s', cnt', q') \<Longrightarrow> scan_inv db s'"
proof (induction env mid raws s cnt q rule: scan_loop.induct)
  case (1 env mid s cnt q)
  then show ?case by simp
next
  case (2 env mid raw raws s cnt q)
  let ?bd = "normalize_breach raw"
  show ?case
  proof (cases "pair_taken (breach_events (working s)) mid (bd_name ?bd)")
    case True
    with 2 show ?thesis by (simp add: pair_taken_def Let_def)
  next
    case False
    let ?gen = "generate_remediation env (bd_name ?bd) (bd_data_classes ?bd) s"
    let ?ev = "\<lparr>be_id = 0, monitored_email_id = mid, breach_name = bd_name ?bd,
              data_classes = bd_data_classes ?bd,
              severity = label (calculate_severity (bd_data_classes ?bd)),
              severity_score = score (calculate_severity (bd_data_classes ?bd)),
              is_notified = False, notified_at = None, remediation_text = Some (fst ?gen)\<rparr>"
    have g: "scan_inv db (snd ?gen)" using "2.prems"(1) by (rule scan_inv_generate)
    show ?thesis
    proof (cases "flush_breach_event ?ev (snd ?gen)")
      case (Inl e)
      with False "2.prems"(2) g show ?thesis by (simp add: pair_taken_def Let_def)
    next
      case (Inr p)
      obtain i s2 where p: "p = (i, s2)" by (cases p)
      have f: "scan_inv db s2" using g Inr [unfolded p] by (rule scan_inv_flush) simp
      show ?thesis
      proof (cases "broker_accepts env i")
        case True
        have "scan_loop env mid raws s2 (cnt + 1) (q @ [i]) = (r, s', cnt', q')"
          using False "2.prems"(2) Inr p True by (simp add: pair_taken_def Let_def)
        with "2.IH"(2) [OF refl _ refl refl refl Inr [unfolded p] refl True f] False
        show ?thesis by (simp add: pair_taken_def)
      next
        case False': False
        with False "2.prems"(2) Inr p f show ?thesis by (simp add: pair_taken_def Let_def)
      qed
    qed
  qed
qed

lemma scan_loop_step_new:
  assumes "\<not> pair_taken (breach_events (working s)) mid (bd_name (normalize_breach raw))"
  shows "scan_loop env mid (raw # raws) s cnt q =
    (let bd = normalize_breach raw;
         gen = generate_remediation env (bd_name bd) (bd_data_classes bd) s;
         new_breach =
             \<lparr>be_id = 0, monitored_email_id = mid, breach_name = bd_name bd,
              data_classes = bd_data_classes bd,
              severity = label (calculate_severity (bd_data_classes bd)),
              severity_score = score (calculate_severity (bd_data_classes bd)),
              is_notified = False, notified_at = None, remediation_text = Some (fst gen)\<rparr>
     in case flush_breach_event new_breach (snd gen) of
          Inl e \<Rightarrow> (Some e, snd gen, cnt, q)
        | Inr (new_id, s2) \<Rightarrow>
            if broker_accepts env new_id
            then scan_loop env mid raws s2 (cnt + 1) (q @ [new_id])
            else (Some OperationalError, s2, cnt + 1, q))"
  using assms by (simp add: pair_taken_def Let_def)

lemma scan_loop_step_taken:
  assumes "pair_taken (breach_events (working s)) mid (bd_name (normalize_breach raw))"
  shows "scan_loop env mid (raw # raws) s cnt q = scan_loop env mid raws s cnt q"
  using assms by (simp add: pair_taken_def Let_def)

declare scan_loop.simps(2) [simp del]

lemma scan_loop_extends:
  assumes acc: "\<And>k. cache_store_accepts env k"
  shows "scan_loop env mid raws s cnt q = (r, s', cnt', q') \<Longrightarrow>
   \<exists>a. breach_events (working s') = breach_events (working s) @ a"
proof (induction raws arbitrary: s cnt q)
  case Nil
  then show ?case by simp
next
  case (Cons raw raws)
  let ?bd = "normalize_breach raw"
  show ?case
  proof (cases "pair_taken (breach_events (working s)) mid (bd_name ?bd)")
    case True
    with Cons show ?thesis by (simp add: scan_loop_step_taken)
  next
    case False
    let ?gen = "generate_remediation env (bd_name ?bd) (bd_data_classes ?bd) s"
    have gw: "breach_events (working (snd ?gen)) = breach_events (working s)"
      by (rule generate_remediation_working [OF acc])
    note step = scan_loop_step_new [OF False, of env raws cnt q, unfolded Let_def]
    show ?thesis
    proof (cases "flush_breach_event \<lparr>be_id = 0, monitored_email_id = mid, breach_name = bd_name ?bd,
              data_classes = bd_data_classes ?bd,
              severity = label (calculate_severity (bd_data_classes ?bd)),
              severity_score = score (calculate_severity (bd_data_classes ?bd)),
              is_notified = False, notified_at = None, remediation_text = Some (fst ?gen)\<rparr> (snd ?gen)")
      case (Inl e)
      with Cons.prems step gw show ?thesis by simp
    next
      case (Inr p)
      obtain i s2 where p: "p = (i, s2)" by (cases p)
      from flush_breach_event_Inr(1) [OF Inr [unfolded p]] gw
      obtain x where s2: "breach_events (working s2) = breach_events (working s) @ [x]" by simp
      show ?thesis
      proof (cases "broker_accepts env i")
        case True
        with Cons.prems step Inr p
        have "scan_loop env mid raws s2 (cnt + 1) (q @ [i]) = (r, s', cnt', q')" by simp
        from Cons.IH [OF this] s2 show ?thesis by auto
      next
        case False
        with Cons.prems step Inr p have "s' = s2" by simp
        with s2 show ?thesis by simp
      qed
    qed
  qed
qed

lemma scan_loop_all_present:
  assumes acc: "\<And>k. cache_store_accepts env k"
  shows "scan_loop env mid raws s cnt q = (None, s', cnt', q') \<Longrightarrow>
   \<forall>raw \<in> set raws. pair_taken (breach_events (working s')) mid (bd_name (normalize_breach raw))"
proof (induction raws arbitrary: s cnt q)
  case Nil
  then show ?case by simp
next
  case (Cons raw raws)
  let ?bd = "normalize_breach raw"
  show ?case
  proof (cases "pair_taken (breach_events (working s)) mid (bd_name ?bd)")
    case True
    with Cons.prems have rec: "scan_loop env mid raws s cnt q = (None, s', cnt', q')"
      by (simp add: scan_loop_step_taken)
    from scan_loop_extends [OF acc rec] True
    have "pair_taken (breach_events (working s')) mid (bd_name ?bd)"
      by (auto simp: pair_taken_iff)
    with Cons.IH [OF rec] show ?thesis by simp
  next
    case False
    let ?gen = "generate_remediation env (bd_name ?bd) (bd_data_classes ?bd) s"
    note step = scan_loop_step_new [OF False, of env raws cnt q, unfolded Let_def]
    show ?thesis
    proof (cases "flush_breach_event \<lparr>be_id = 0, monitored_email_id = mid, breach_name = bd_name ?bd,
              data_classes = bd_data_classes ?bd,
              severity = label (calculate_severity (bd_data_classes ?bd)),
              severity_score = score (calculate_severity (bd_data_classes ?bd)),
              is_notified = False, notified_at = None, remediation_text = Some (fst ?gen)\<rparr> (snd ?gen)")
      case (Inl e)
      with Cons.prems step show ?thesis by simp
    next
      case (Inr p)
      obtain i s2 where p: "p = (i, s2)" by (cases p)
      from flush_breach_event_Inr(1) [OF Inr [unfolded p]]
      have s2: "pair_taken (breach_events (working s2)) mid (bd_name ?bd)"
        by (simp add: pair_taken_iff)
      show ?thesis
      proof (cases "broker_accepts env i")
        case True
        with Cons.prems step Inr p
        have rec: "scan_loop env mid raws s2 (cnt + 1) (q @ [i]) = (None, s', cnt', q')" by simp
        from scan_loop_extends [OF acc rec] s2
        have "pair_taken (breach_events (working s')) mid (bd_name ?bd)"
          by (auto simp: pair_taken_iff)
        with Cons.IH [OF rec] show ?thesis by simp
      next
        case False
        with Cons.prems step Inr p show ?thesis by simp
      qed
    qed
  qed
qed

lemma scan_loop_nothing_new:
  "\<forall>raw \<in> set raws. pair_taken (breach_events (working s)) mid (bd_name (normalize_breach raw))
   \<Longrightarrow> scan_loop env mid raws s cnt q = (None, s, cnt, q)"
  by (induction raws) (simp_all add: scan_loop_step_taken)

lemma unique_pairs_prefix: "unique_pairs (xs @ ys) \<Longrightarrow> unique_pairs xs"
  by (simp add: unique_pairs_def)

lemma generate_remediation_unique:
  assumes "scan_inv db s" and "unique_pairs (breach_events (working s))"
  shows "unique_pairs (breach_events (working (snd (generate_remediation env bname classes s))))"
proof -
  from assms(1) obtain a where a: "breach_events (working s) = breach_events (committed s) @ a"
    by (auto simp: scan_inv_def)
  with assms(2) have c: "unique_pairs (breach_events (committed s))"
    using unique_pairs_prefix [of "breach_events (committed s)" a] by simp
  from generate_remediation_cases [of env bname classes s] assms(2) c
  show ?thesis by auto
qed

lemma scan_loop_unique:
  "scan_inv db s \<Longrightarrow> unique_pairs (breach_events (working s)) \<Longrightarrow>
   scan_loop env mid raws s cnt q = (r, s', cnt', q') \<Longrightarrow>
   unique_pairs (breach_events (working s'))"
proof (induction raws arbitrary: s cnt q)
  case Nil
  then show ?case by simp
next
  case (Cons raw raws)
  let ?bd = "normalize_breach raw"
  show ?case
  proof (cases "pair_taken (breach_events (working s)) mid (bd_name ?bd)")
    case True
    with Cons show ?thesis by (simp add: scan_loop_step_taken)
  next
    case False
    let ?gen = "generate_remediation env (bd_name ?bd) (bd_data_classes ?bd) s"
    have gi: "scan_inv db (snd ?gen)" using Cons.prems(1) by (rule scan_inv_generate)
    have gu: "unique_pairs (breach_events (working (snd ?gen)))"
      using Cons.prems(1,2) by (rule generate_remediation_unique)
    note step = scan_loop_step_new [OF False, of env raws cnt q, unfolded Let_def]
    show ?thesis
    proof (cases "flush_breach_event \<lparr>be_id = 0, monitored_email_id = mid, breach_name = bd_name ?bd,
              data_classes = bd_data_classes ?bd,
              severity = label (calculate_severity (bd_data_classes ?bd)),
              severity_score = score (calculate_severity (bd_data_classes ?bd)),
              is_notified = False, notified_at = None, remediation_text = Some (fst ?gen)\<rparr> (snd ?gen)")
      case (Inl e)
      with Cons.prems step gu show ?thesis by simp
    next
      case (Inr p)
      obtain i s2 where p: "p = (i, s2)" by (cases p)
      note fl = flush_breach_event_Inr [OF Inr [unfolded p]]
      have i2: "scan_inv db s2" using gi Inr [unfolded p] by (rule scan_inv_flush) simp
      from fl(1,4) gu
      have u2: "unique_pairs (breach_events (working s2))"
        by (auto simp: unique_pairs_def pair_taken_iff)
      show ?thesis
      proof (cases "broker_accepts env i")
        case True
        with Cons.prems step Inr p
        have "scan_loop env mid raws s2 (cnt + 1) (q @ [i]) = (r, s', cnt', q')" by simp
        from Cons.IH [OF i2 u2 this] show ?thesis .
      next
        case False
        with Cons.prems step Inr p have "s' = s2" by simp
        with u2 show ?thesis by simp
      qed
    qed
  qed
qed

text \<open>
  The deduplication itself is sound: a breach whose pair has an event is skipped
  (\<open>scan_loop_step_taken\<close>), a scan keeps the stored pairs unique
  (\<open>process_single_email_unique\<close>), and as long as the store accepts every cache row
  of the first scan, a second scan of the same feed adds no event
  (\<open>rescan_no_new_events\<close>).
\<close>

lemma process_single_email_Scanned:
  assumes "process_single_email env db mid = (Scanned n, db1, q1)"
  shows "(db1 = db \<and> n = 0 \<and> q1 = []
          \<and> (find (\<lambda>m. me_id m = mid) (monitored_emails db) = None
              \<or> (\<exists>me. find (\<lambda>m. me_id m = mid) (monitored_emails db) = Some me \<and> \<not> is_active me)))
       \<or> (\<exists>me addr feed s'.
            find (\<lambda>m. me_id m = mid) (monitored_emails db) = Some me \<and> is_active me
            \<and> decrypt_email env (email_encrypted me) = Some addr
            \<and> get_breaches_for_email env addr = Inr feed
            \<and> scan_loop env mid feed (open_session db) 0 [] = (None, s', n, q1)
            \<and> db1 = (working s')\<lparr>monitored_emails :=
                  update_first (\<lambda>m. me_id m = mid)
                    (\<lambda>m. m\<lparr>last_scanned_at := Some (utcnow env), scan_count := scan_count m + 1\<rparr>)
                    (monitored_emails (working s'))\<rparr>)"
  using assms
  by (auto simp: process_single_email_def Let_def
      split: option.splits sum.splits prod.splits if_splits)

lemma rescan_no_new_events:
  assumes acc: "\<And>k. cache_store_accepts env k"
    and run1: "process_single_email env db mid = (Scanned n, db1, q1)"
    and same: "decrypt_email env2 = decrypt_email env"
              "get_breaches_for_email env2 = get_breaches_for_email env"
  shows "\<exists>db2. process_single_email env2 db1 mid = (Scanned 0, db2, [])
               \<and> breach_events db2 = breach_events db1"
  using process_single_email_Scanned [OF run1]
proof (elim disjE exE conjE)
  assume "db1 = db" "find (\<lambda>m. me_id m = mid) (monitored_emails db) = None"
  then show ?thesis by (simp add: process_single_email_def)
next
  fix me
  assume "db1 = db" "find (\<lambda>m. me_id m = mid) (monitored_emails db) = Some me" "\<not> is_active me"
  then show ?thesis by (simp add: process_single_email_def)
next
  fix me addr feed s'
  let ?f = "\<lambda>m. m\<lparr>last_scanned_at := Some (utcnow env), scan_count := scan_count m + 1\<rparr>"
  assume me: "find (\<lambda>m. me_id m = mid) (monitored_emails db) = Some me" "is_active me"
    and dec: "decrypt_email env (email_encrypted me) = Some addr"
    and feed: "get_breaches_for_email env addr = Inr feed"
    and loop: "scan_loop env mid feed (open_session db) 0 [] = (None, s', n, q1)"
    and db1: "db1 = (working s')\<lparr>monitored_emails :=
                update_first (\<lambda>m. me_id m = mid) ?f (monitored_emails (working s'))\<rparr>"
  have inv: "scan_inv db s'" using scan_inv_open loop by (rule scan_loop_inv)
  then have mw: "monitored_emails (working s') = monitored_emails db"
    by (simp add: scan_inv_def)
  have f1: "find (\<lambda>m. me_id m = mid) (monitored_emails db1) = Some (?f me)"
    using me(1) by (simp add: db1 mw find_update_first)
  have ev1: "breach_events db1 = breach_events (working s')" by (simp add: db1)
  have present: "\<forall>raw \<in> set feed.
      pair_taken (breach_events (working (open_session db1))) mid (bd_name (normalize_breach raw))"
    using scan_loop_all_present [OF acc loop] by (simp add: ev1)
  have loop2: "scan_loop env2 mid feed (open_session db1) 0 [] = (None, open_session db1, 0, [])"
    using present by (rule scan_loop_nothing_new)
  show ?thesis
    using f1 me(2) dec feed same loop2
    by (simp add: process_single_email_def)
qed

lemma process_single_email_unique:
  assumes "unique_pairs (breach_events db)"
  shows "unique_pairs (breach_events (fst (snd (process_single_email env db mid))))"
proof -
  have inv: "\<And>feed r s' c q. scan_loop env mid feed (open_session db) 0 [] = (r, s', c, q)
      \<Longrightarrow> unique_pairs (breach_events (committed s')) \<and> unique_pairs (breach_events (working s'))"
  proof -
    fix feed r s' c q
    assume loop: "scan_loop env mid feed (open_session db) 0 [] = (r, s', c, q)"
    with scan_inv_open have "scan_inv db s'" by (rule scan_loop_inv)
    then obtain a where a: "breach_events (working s') = breach_events (committed s') @ a"
      by (auto simp: scan_inv_def)
    have w: "unique_pairs (breach_events (working s'))"
      using assms loop by (intro scan_loop_unique [OF scan_inv_open _ loop]) simp
    with a show "unique_pairs (breach_events (committed s')) \<and> unique_pairs (breach_events (working s'))"
      using unique_pairs_prefix [of "breach_events (committed s')" a] by simp
  qed
  show ?thesis
    using assms
    by (auto simp: process_single_email_def Let_def dest: inv
        split: option.splits sum.splits prod.splits if_splits)
qed



lemmas scan_eval =
  process_single_email_def demo_env_def demo_store_def demo_feed_def demo_email_def
  demo_user_def scan_loop.simps normalize_breach_def generate_remediation_def
  build_cache_key_def insert_cache_entry_def flush_breach_event_def fresh_id_def
  calculate_severity_def weight_of_def recognized_def DATA_CLASS_WEIGHTS_def threshold_def
  SEVERITY_THRESHOLDS_def critical_types_def Let_def

lemma demo_first_scan:
  "process_single_email demo_env demo_store 1 = (Scanned 2, demo_store_scanned, [1, 2])"
  by (simp add: scan_eval demo_store_scanned_def)

lemmas dispatch_eval =
  dispatch_alerts_def demo_env_def demo_store_def demo_email_def demo_user_def demo_event_def
  send_breach_alert_def send_breach_sms_def build_sms_message_def base_structure_def
  slice_to_def isdigit_def Let_def

lemma demo_dispatch:
  "dispatch_alerts demo_env (demo_store\<lparr>breach_events := [demo_event]\<rparr>) 1
    = (Dispatched [''email'', ''sms''],
       demo_store\<lparr>breach_events :=
           [demo_event\<lparr>is_notified := True, notified_at := Some 1700000000\<rparr>],
         alert_logs :=
           [\<lparr>al_breach_event_id = 1, channel = ''email'', recipient = ''owner@example.com'',
             status = ''sent'', error_message = None\<rparr>,
            \<lparr>al_breach_event_id = 1, channel = ''sms'', recipient = ''+15550100'',
             status = ''sent'', error_message = None\<rparr>]\<rparr>)"
  by (simp add: dispatch_eval)

section \<open>Properties of ingestion and dispatch\<close>

text \<open>
  Claim C7 fails on the code. When the commit of a new cache row raises,
  \<open>generate_remediation\<close> rolls back the shared session, which drops the breach events
  the scan has flushed and not yet committed; the scan goes on and reports success.
  Here the store refuses the cache row of the second breach (another session committed
  the same key first): the first scan reports two new breaches and persists only the
  LinkedIn event, and the second scan of the unchanged feed, with the same
  collaborators, creates the Adobe event.
\<close>

theorem rescan_after_cache_rollback_adds_event:
  "process_single_email
     (demo_env\<lparr>cache_store_accepts := (\<lambda>k. k \<noteq> ''LinkedIn|Email addresses'')\<rparr>) demo_store 1
     = (Scanned 2, demo_store_lost_event, [1, 1])
   \<and> map breach_name (breach_events demo_store_lost_event) = [''LinkedIn'']
   \<and> fst (process_single_email
          (demo_env\<lparr>cache_store_accepts := (\<lambda>k. k \<noteq> ''LinkedIn|Email addresses'')\<rparr>)
          demo_store_lost_event 1) = Scanned 1
   \<and> map breach_name (breach_events (fst (snd (process_single_email
          (demo_env\<lparr>cache_store_accepts := (\<lambda>k. k \<noteq> ''LinkedIn|Email addresses'')\<rparr>)
          demo_store_lost_event 1)))) = [''LinkedIn'', ''Adobe'']"
  by (simp add: scan_eval demo_store_lost_event_def)

text \<open>
  Claim C2 fails on the code. \<open>generate_remediation\<close> commits the shared session
  when it stores or hits a cache row, which persists the breach events flushed so far.
  With a feed of two new breaches and a broker that refuses the second
  \<open>dispatch_alerts.delay\<close>, the scan fails and rolls back, yet the first breach event
  stays committed while the scan count is still 0 and no scan time is recorded.
\<close>

theorem scan_failure_leaves_committed_event:
  "process_single_email (demo_env\<lparr>broker_accepts := (\<lambda>i. i = 1)\<rparr>) demo_store 1
    = (ScanFailed 2 OperationalError,
       demo_store\<lparr>breach_events := [hd (breach_events demo_store_scanned)],
                  remediation_cache := remediation_cache demo_store_scanned\<rparr>,
       [1])
   \<and> breach_events demo_store = []
   \<and> map scan_count (monitored_emails demo_store) = [0]"
  by (simp add: scan_eval demo_store_scanned_def)




text \<open>
  Claim C6. Dispatch on a breach event id that is missing or already notified returns
  the benign outcome with no channel and leaves the whole store, so also the delivery
  records, the notified flag and its timestamp, unchanged; and after a dispatch that
  completed, a second dispatch of the same id changes nothing.
\<close>

theorem dispatch_noop_on_missing_or_notified:
  "(find (\<lambda>e. be_id e = i) (breach_events db) = None
      \<or> (\<exists>e. find (\<lambda>e. be_id e = i) (breach_events db) = Some e \<and> is_notified e)
     \<longrightarrow> dispatch_alerts env db i = (Dispatched [], db))
   \<and> (dispatch_alerts env db i = (Dispatched chans, db')
     \<longrightarrow> dispatch_alerts env2 db' i = (Dispatched [], db'))"
proof -
  have second: "dispatch_alerts env2 db' i = (Dispatched [], db')"
    if run: "dispatch_alerts env db i = (Dispatched chans, db')"
  proof (cases "find (\<lambda>e. be_id e = i) (breach_events db)")
    case None
    with run have "db' = db" by (simp add: dispatch_guard)
    with None show ?thesis by (simp add: dispatch_guard)
  next
    case (Some e)
    show ?thesis
    proof (cases "is_notified e")
      case True
      with Some run have "db' = db" by (simp add: dispatch_guard)
      with Some True show ?thesis by (simp add: dispatch_guard)
    next
      case False
      from dispatch_result_cases [OF Some False, of env] run
      obtain logs where "db' = db\<lparr>alert_logs := alert_logs db @ logs,
                breach_events := update_first (\<lambda>e. be_id e = i)
                  (\<lambda>e. e\<lparr>is_notified := True, notified_at := Some (utcnow env)\<rparr>)
                  (breach_events db)\<rparr>"
        by auto
      then have "find (\<lambda>e. be_id e = i) (breach_events db')
          = Some (e\<lparr>is_notified := True, notified_at := Some (utcnow env)\<rparr>)"
        using Some by (simp add: find_update_first)
      then show ?thesis by (intro dispatch_guard) simp
    qed
  qed
  from dispatch_guard second show ?thesis by blast
qed

theorem dispatch_noop_on_missing_or_notified_witness:
  "find (\<lambda>e. be_id e = 7) (breach_events demo_store) = None
   \<and> dispatch_alerts demo_env demo_store 7 = (Dispatched [], demo_store)
   \<and> fst (dispatch_alerts demo_env (demo_store\<lparr>breach_events := [demo_event]\<rparr>) 1)
       = Dispatched [''email'', ''sms'']
   \<and> dispatch_alerts demo_env
        (snd (dispatch_alerts demo_env (demo_store\<lparr>breach_events := [demo_event]\<rparr>) 1)) 1
       = (Dispatched [],
          snd (dispatch_alerts demo_env (demo_store\<lparr>breach_events := [demo_event]\<rparr>) 1))"
proof -
  have f: "find (\<lambda>e. be_id e = 7) (breach_events demo_store) = None"
    by (simp add: demo_store_def)
  have d: "dispatch_alerts demo_env (demo_store\<lparr>breach_events := [demo_event]\<rparr>) 1
      = (Dispatched [''email'', ''sms''],
         snd (dispatch_alerts demo_env (demo_store\<lparr>breach_events := [demo_event]\<rparr>) 1))"
    unfolding demo_dispatch by simp
  have a: "dispatch_alerts demo_env demo_store 7 = (Dispatched [], demo_store)"
    using dispatch_noop_on_missing_or_notified [of 7 demo_store demo_env "[]" demo_store demo_env] f
    by blast
  have b: "dispatch_alerts demo_env
        (snd (dispatch_alerts demo_env (demo_store\<lparr>breach_events := [demo_event]\<rparr>) 1)) 1
       = (Dispatched [],
          snd (dispatch_alerts demo_env (demo_store\<lparr>breach_events := [demo_event]\<rparr>) 1))"
    using dispatch_noop_on_missing_or_notified
      [of 1 "demo_store\<lparr>breach_events := [demo_event]\<rparr>" demo_env "[''email'', ''sms'']"
          "snd (dispatch_alerts demo_env (demo_store\<lparr>breach_events := [demo_event]\<rparr>) 1)" demo_env]
      d
    by blast
  have c: "fst (dispatch_alerts demo_env (demo_store\<lparr>breach_events := [demo_event]\<rparr>) 1)
       = Dispatched [''email'', ''sms'']"
    unfolding demo_dispatch by simp
  from f a c b show ?thesis by (intro conjI)
qed

end
